theory Spec2Isabelle
  imports Complex_Main
begin

section \<open>JavaScript values read from the feeds\<close>

text \<open>
  The program (\<^verbatim>\<open>src/index.js\<close>) reads JSON rows from three NOAA feeds. A JS number is
  an IEEE double; the program never does arithmetic on a field value, it only tests
  \<^verbatim>\<open>Number.isFinite\<close> and prints it, so a number is either a finite value (kept as a
  rational), NaN or one of the infinities. Millisecond timestamps (results of
  \<^verbatim>\<open>Date.parse\<close>, \<^verbatim>\<open>Date.now\<close>, stored watermarks) are integers below \<open>2^53\<close> and
  are modelled as \<open>int\<close>; NaN/null results are \<open>None\<close>.
\<close>

datatype jsnum = Fin rat | NaN | PosInf | NegInf

datatype jsval = Undefined | Null | Bool bool | Num jsnum | Str string

text \<open>A row is a parsed JSON object: its properties in order. A row that is \<^verbatim>\<open>null\<close> or
  a primitive reads as \<open>[]\<close>, since every access is \<^verbatim>\<open>r?.[key]\<close> and gives undefined.\<close>

type_synonym row = "(string \<times> jsval) list"

text \<open>The host's built-ins the program calls but does not define.\<close>

record host =
  dateParse :: "string \<Rightarrow> int option"     \<comment> \<open>\<^verbatim>\<open>Date.parse\<close>; \<open>None\<close> is NaN\<close>
  numberOfString :: "string \<Rightarrow> jsnum"      \<comment> \<open>\<^verbatim>\<open>Number(s)\<close> on a string\<close>
  numberToString :: "jsnum \<Rightarrow> string"      \<comment> \<open>\<^verbatim>\<open>String(n)\<close> on a number\<close>

definition getProp :: "row \<Rightarrow> string \<Rightarrow> jsval" where
  "getProp r key = (case map_of r key of None \<Rightarrow> Undefined | Some v \<Rightarrow> v)"

fun isFinite :: "jsnum \<Rightarrow> bool" where
  "isFinite (Fin q) = True"
| "isFinite n = False"

text \<open>JS truthiness, as used by \<^verbatim>\<open>t ? ... : ...\<close> and \<^verbatim>\<open>!x\<close>.\<close>

fun truthy :: "jsval \<Rightarrow> bool" where
  "truthy Undefined = False"
| "truthy Null = False"
| "truthy (Bool b) = b"
| "truthy (Num n) = (n \<noteq> NaN \<and> n \<noteq> Fin 0)"
| "truthy (Str s) = (s \<noteq> [])"

text \<open>\<^verbatim>\<open>String(x)\<close>.\<close>

fun jsString :: "host \<Rightarrow> jsval \<Rightarrow> string" where
  "jsString H Undefined = ''undefined''"
| "jsString H Null = ''null''"
| "jsString H (Bool b) = (if b then ''true'' else ''false'')"
| "jsString H (Num n) = numberToString H n"
| "jsString H (Str s) = s"

text \<open>\<^verbatim>\<open>trim\<close> and \<^verbatim>\<open>toLowerCase\<close> on ASCII: the white space stripped is tab, line feed,
  vertical tab, form feed, carriage return and space; letters \<open>A\<close>..\<open>Z\<close> are lowered.
  (JS also strips and lowers non-ASCII characters; strings here are byte strings.)\<close>

definition isSpace :: "char \<Rightarrow> bool" where
  "isSpace c = (c \<in> set [CHR 0x09, CHR 0x0A, CHR 0x0B, CHR 0x0C, CHR 0x0D, CHR '' ''])"

definition trim :: "string \<Rightarrow> string" where
  "trim s = rev (dropWhile isSpace (rev (dropWhile isSpace s)))"

definition lowerChar :: "char \<Rightarrow> char" where
  "lowerChar c =
     (case map_of (zip ''ABCDEFGHIJKLMNOPQRSTUVWXYZ'' ''abcdefghijklmnopqrstuvwxyz'') c of
        None \<Rightarrow> c
      | Some l \<Rightarrow> l)"

definition toLowerCase :: "string \<Rightarrow> string" where
  "toLowerCase s = map lowerChar s"

section \<open>Time and number coercion\<close>

definition OVERLAP_MS :: int where
  "OVERLAP_MS = 10 * 60 * 1000"

text \<open>\<^verbatim>\<open>toMs\<close>: a finite parse result or null. Zero is returned as zero; the callers'
  \<^verbatim>\<open>!tms\<close> test is \<open>falsyMs\<close>.\<close>

definition toMs :: "host \<Rightarrow> jsval \<Rightarrow> int option" where
  "toMs H t = dateParse H (jsString H t)"

definition falsyMs :: "int option \<Rightarrow> bool" where
  "falsyMs m = (m = None \<or> m = Some 0)"

definition isFiniteNumber :: "host \<Rightarrow> jsval \<Rightarrow> bool" where
  "isFiniteNumber H x =
     (case x of
        Null \<Rightarrow> False
      | Undefined \<Rightarrow> False
      | Num n \<Rightarrow> isFinite n
      | _ \<Rightarrow>
          (let s = toLowerCase (trim (jsString H x)) in
           if s = '''' \<or> s = ''null'' \<or> s = ''nan'' then False
           else isFinite (numberOfString H s)))"

definition toNumber :: "host \<Rightarrow> jsval \<Rightarrow> jsnum" where
  "toNumber H x = (case x of Num n \<Rightarrow> n | _ \<Rightarrow> numberOfString H (trim (jsString H x)))"

section \<open>Normalizer\<close>

definition MAP_WIND :: "(string \<times> string) list" where
  "MAP_WIND = [(''speed_km_s'', ''proton_speed''),
               (''density_cm3'', ''proton_density''),
               (''temperature_k'', ''proton_temperature'')]"

definition MAP_MAG :: "(string \<times> string) list" where
  "MAP_MAG = [(''bx_gsm_nt'', ''bx_gsm''),
              (''by_gsm_nt'', ''by_gsm''),
              (''bz_gsm_nt'', ''bz_gsm''),
              (''bt_nt'', ''bt'')]"

fun pickNumericFields :: "host \<Rightarrow> row \<Rightarrow> (string \<times> string) list \<Rightarrow> (string \<times> jsnum) list" where
  "pickNumericFields H r [] = []"
| "pickNumericFields H r ((destKey, srcKey) # fieldMap) =
     (let v = getProp r srcKey in
      if isFiniteNumber H v then (destKey, toNumber H v) # pickNumericFields H r fieldMap
      else pickNumericFields H r fieldMap)"

text \<open>A canonical point is the object \<^verbatim>\<open>{ tms, ...tags, ...fields }\<close>. The keys of the two
  field maps, the tag key \<^verbatim>\<open>source\<close> and \<^verbatim>\<open>tms\<close> are pairwise different, so the three
  parts are kept apart as the later destructuring \<^verbatim>\<open>{ tms, source, ...fields }\<close> finds them.\<close>

record point =
  tms :: int
  tags :: "(string \<times> jsval) list"
  numFields :: "(string \<times> jsnum) list"

definition tagValue :: "row \<Rightarrow> string \<Rightarrow> jsval" where
  "tagValue r key = (let v = getProp r key in if v = Null \<or> v = Undefined then Str ''unknown'' else v)"

definition normalizeRow :: "host \<Rightarrow> (string \<times> string) list \<Rightarrow> string list \<Rightarrow> row \<Rightarrow> point list" where
  "normalizeRow H fieldMap tagKeys r =
     (let t = toMs H (getProp r ''time_tag'') in
      if falsyMs t then []
      else let fs = pickNumericFields H r fieldMap in
        if fs = [] then []
        else [\<lparr>tms = the t, tags = map (\<lambda>key. (key, tagValue r key)) tagKeys, numFields = fs\<rparr>])"

definition normalizePoints :: "host \<Rightarrow> row list \<Rightarrow> (string \<times> string) list \<Rightarrow> string list \<Rightarrow> point list" where
  "normalizePoints H rows fieldMap tagKeys = concat (map (normalizeRow H fieldMap tagKeys) rows)"

text \<open>The extraction for the index series, written inline in \<^verbatim>\<open>run\<close>: \<^verbatim>\<open>kp\<close>, then
  \<^verbatim>\<open>kp_index\<close>.\<close>

definition kpRow :: "host \<Rightarrow> row \<Rightarrow> (int \<times> jsnum) list" where
  "kpRow H r =
     (let t = toMs H (getProp r ''time_tag'') in
      if falsyMs t then []
      else if isFiniteNumber H (getProp r ''kp'') then [(the t, toNumber H (getProp r ''kp''))]
      else if isFiniteNumber H (getProp r ''kp_index'') then [(the t, toNumber H (getProp r ''kp_index''))]
      else [])"

definition kpPoints :: "host \<Rightarrow> row list \<Rightarrow> (int \<times> jsnum) list" where
  "kpPoints H rows = concat (map (kpRow H) rows)"

section \<open>Window slicer\<close>

text \<open>What a fetch delivers: any JSON value; only an array is iterated.\<close>

datatype feed = NotArray | Rows "row list"

definition cutoff :: "int option \<Rightarrow> int option \<Rightarrow> int option" where
  "cutoff lastTsMs bootstrapSinceMs =
     (if lastTsMs \<noteq> None \<and> lastTsMs \<noteq> Some 0 then Some (the lastTsMs - OVERLAP_MS)
      else bootstrapSinceMs)"

text \<open>The loop of \<^verbatim>\<open>sliceNew\<close>, with the set \<^verbatim>\<open>seen\<close> and the array \<^verbatim>\<open>out\<close> passed along.
  Membership in \<^verbatim>\<open>seen\<close> is SameValueZero, which on JSON scalars is equality.\<close>

fun sliceLoop :: "host \<Rightarrow> int option \<Rightarrow> row list \<Rightarrow> jsval list \<Rightarrow> row list \<Rightarrow> row list" where
  "sliceLoop H since [] seen out = out"
| "sliceLoop H since (r # rows) seen out =
     (let t = getProp r ''time_tag'';
          m = (if truthy t then toMs H t else None) in
      if falsyMs m then sliceLoop H since rows seen out
      else if since \<noteq> None \<and> the m \<le> the since then sliceLoop H since rows seen out
      else if t \<in> set seen then sliceLoop H since rows seen out
      else sliceLoop H since rows (t # seen) (out @ [r]))"

definition sortKey :: "host \<Rightarrow> row \<Rightarrow> int" where
  "sortKey H a = (case toMs H (getProp a ''time_tag'') of None \<Rightarrow> 0 | Some m \<Rightarrow> m)"

text \<open>\<^verbatim>\<open>Array.prototype.sort\<close> is stable and the comparator is the difference of two
  integer keys, so the result is the stable sort by that key.\<close>

definition sliceNew :: "host \<Rightarrow> feed \<Rightarrow> int option \<Rightarrow> int option \<Rightarrow> row list" where
  "sliceNew H rows lastTsMs bootstrapSinceMs =
     (case rows of
        NotArray \<Rightarrow> []
      | Rows rs \<Rightarrow> sort_key (sortKey H) (sliceLoop H (cutoff lastTsMs bootstrapSinceMs) rs [] []))"

fun maxOf :: "int list \<Rightarrow> int" where
  "maxOf [] = 0"
| "maxOf (x # xs) = fold max xs x"

definition latestTsMs :: "host \<Rightarrow> row list \<Rightarrow> int option" where
  "latestTsMs H rows =
     (if rows = [] then None
      else let ms = filter (\<lambda>m. \<not> falsyMs m) (map (\<lambda>r. toMs H (getProp r ''time_tag'')) rows) in
        if ms = [] then None else Some (maxOf (map the ms)))"

section \<open>Line encoder\<close>

text \<open>\<^verbatim>\<open>s.replace(/c/g, rep)\<close> for a one-character pattern.\<close>

definition replaceAll :: "char \<Rightarrow> string \<Rightarrow> string \<Rightarrow> string" where
  "replaceAll c rep s = concat (map (\<lambda>x. if x = c then rep else [x]) s)"

definition backslash :: char where
  "backslash = CHR 0x5C"

definition escTag :: "host \<Rightarrow> jsval \<Rightarrow> string" where
  "escTag H v =
     replaceAll CHR ''='' [backslash, CHR ''='']
       (replaceAll CHR '' '' [backslash, CHR '' '']
         (replaceAll CHR '','' [backslash, CHR '','']
           (replaceAll backslash [backslash, backslash] (jsString H v))))"

definition escMeas :: "string \<Rightarrow> string" where
  "escMeas m =
     replaceAll CHR '' '' [backslash, CHR '' '']
       (replaceAll CHR '','' [backslash, CHR '','']
         (replaceAll backslash [backslash, backslash] m))"

fun joinWith :: "string \<Rightarrow> string list \<Rightarrow> string" where
  "joinWith sep [] = []"
| "joinWith sep [x] = x"
| "joinWith sep (x # y # ys) = x @ sep @ joinWith sep (y # ys)"

text \<open>Decimal rendering of a BigInt, as the template literal prints \<^verbatim>\<open>tsNs\<close>.\<close>

definition digitChar :: "nat \<Rightarrow> char" where
  "digitChar d = ''0123456789'' ! d"

function showNat :: "nat \<Rightarrow> string" where
  "showNat n = (if n < 10 then [digitChar n] else showNat (n div 10) @ [digitChar (n mod 10)])"
  by pat_completeness auto
termination
  by (relation "measure (\<lambda>n. n)") auto

definition showInt :: "int \<Rightarrow> string" where
  "showInt i = (if i < 0 then CHR ''-'' # showNat (nat (- i)) else showNat (nat i))"

text \<open>\<^verbatim>\<open>line\<close>. A field is rendered only if finite; a rendered field is never the empty
  string, so \<^verbatim>\<open>filter(Boolean)\<close> removes exactly the nulls.\<close>

definition tagStr :: "host \<Rightarrow> (string \<times> jsval) list \<Rightarrow> string" where
  "tagStr H tgs = joinWith '','' (map (\<lambda>(key, v). key @ ''='' @ escTag H v) tgs)"

definition fieldStr :: "host \<Rightarrow> (string \<times> jsnum) list \<Rightarrow> string" where
  "fieldStr H fs =
     joinWith '','' (concat (map (\<lambda>(key, v). if isFinite v then [key @ ''='' @ numberToString H v] else []) fs))"

definition line :: "host \<Rightarrow> string \<Rightarrow> (string \<times> jsval) list \<Rightarrow> (string \<times> jsnum) list \<Rightarrow> int \<Rightarrow> string option" where
  "line H measurement tgs fs t =
     (if fieldStr H fs = [] then None
      else
        let tsNs = t * 1000000 in
        Some (escMeas measurement @ (if tagStr H tgs \<noteq> [] then '','' @ tagStr H tgs else [])
              @ '' '' @ fieldStr H fs @ '' '' @ showInt tsNs))"

section \<open>Orchestrator\<close>

text \<open>The persisted record \<^verbatim>\<open>{k, wind, mag}\<close>; \<open>None\<close> is null or a missing key.\<close>

record syncState =
  st_k :: "int option"
  st_wind :: "int option"
  st_mag :: "int option"

datatype pushOutcome = NetworkError | Response nat string

datatype error = FetchFailed | PushFailed | PushRejected nat string | PutFailed

text \<open>The environment of one run: the key-value store's record, the configured lookback
  (\<open>None\<close>: not configured), what each feed request delivers (\<open>None\<close>: the request fails
  or times out), how the sink answers a body, whether the store accepts a write, and the
  clock.\<close>

record env =
  STATE :: "syncState option"
  BOOTSTRAP_LOOKBACK_MINUTES :: "int option"
  NOAA_KP :: "feed option"
  NOAA_WIND :: "feed option"
  NOAA_MAG :: "feed option"
  GRAFANA :: "string \<Rightarrow> pushOutcome"
  STATE_put_ok :: bool
  dateNow :: int

datatype event = KvGet | Fetch string | Push string | KvPut syncState

record runResult =
  pushed :: nat
  committed :: bool
  state :: syncState

text \<open>\<^verbatim>\<open>pushToGrafana\<close>: a network error or a response outside 200..299 throws.\<close>

definition pushToGrafana :: "env \<Rightarrow> string \<Rightarrow> error option" where
  "pushToGrafana E influxBody =
     (case GRAFANA E influxBody of
        NetworkError \<Rightarrow> Some PushFailed
      | Response status body \<Rightarrow>
          if 200 \<le> status \<and> status \<le> 299 then None
          else Some (PushRejected status (take 500 body)))"

definition loadLast :: "env \<Rightarrow> syncState" where
  "loadLast E =
     (case STATE E of
        None \<Rightarrow> \<lparr>st_k = None, st_wind = None, st_mag = None\<rparr>
      | Some s \<Rightarrow> s)"

definition bootstrapSince :: "env \<Rightarrow> syncState \<Rightarrow> int option" where
  "bootstrapSince E lastSt =
     (let lookbackMin = (case BOOTSTRAP_LOOKBACK_MINUTES E of None \<Rightarrow> 180 | Some n \<Rightarrow> n) in
      if falsyMs (st_k lastSt) \<and> falsyMs (st_wind lastSt) \<and> falsyMs (st_mag lastSt) \<and> lookbackMin > 0
      then Some (dateNow E - lookbackMin * 60 * 1000)
      else None)"

definition kpLines :: "host \<Rightarrow> (int \<times> jsnum) list \<Rightarrow> string list" where
  "kpLines H ps =
     concat (map (\<lambda>(t, kp).
       case line H ''spaceweather_kp'' [(''source'', Str ''noaa'')] [(''kp'', kp)] t of
         None \<Rightarrow> [] | Some l \<Rightarrow> (if l \<noteq> [] then [l] else [])) ps)"

definition pointLines :: "host \<Rightarrow> string \<Rightarrow> point list \<Rightarrow> string list" where
  "pointLines H measurement ps =
     concat (map (\<lambda>p.
       case line H measurement
              [(''source'', (case map_of (tags p) ''source'' of None \<Rightarrow> Undefined | Some v \<Rightarrow> v))]
              (numFields p) (tms p) of
         None \<Rightarrow> [] | Some l \<Rightarrow> (if l \<noteq> [] then [l] else [])) ps)"

definition encodeLines :: "host \<Rightarrow> row list \<Rightarrow> row list \<Rightarrow> row list \<Rightarrow> string list" where
  "encodeLines H kNewRaw windNewRaw magNewRaw =
     kpLines H (kpPoints H kNewRaw)
     @ pointLines H ''solarwind_plasma'' (normalizePoints H windNewRaw MAP_WIND [''source''])
     @ pointLines H ''solarwind_mag'' (normalizePoints H magNewRaw MAP_MAG [''source''])"

definition orElse :: "int option \<Rightarrow> int option \<Rightarrow> int option" where
  "orElse a b = (case a of None \<Rightarrow> b | Some x \<Rightarrow> Some x)"

definition proposedState :: "host \<Rightarrow> syncState \<Rightarrow> row list \<Rightarrow> row list \<Rightarrow> row list \<Rightarrow> syncState" where
  "proposedState H lastSt kNewRaw windNewRaw magNewRaw =
     \<lparr>st_k = orElse (latestTsMs H kNewRaw) (st_k lastSt),
      st_wind = orElse (latestTsMs H windNewRaw) (st_wind lastSt),
      st_mag = orElse (latestTsMs H magNewRaw) (st_mag lastSt)\<rparr>"

text \<open>One run. The result is the trace of effects in the order they happen, the store's
  record afterwards, and what the caller gets: the thrown error or the returned object.\<close>

definition fetchTrace :: "event list" where
  "fetchTrace = [KvGet, Fetch ''NOAA_KP_URL'', Fetch ''NOAA_WIND_URL'', Fetch ''NOAA_MAG_URL'']"

definition run :: "host \<Rightarrow> env \<Rightarrow> event list \<times> syncState option \<times> (error + runResult)" where
  "run H E =
     (let lastSt = loadLast E;
          bootstrapSinceMs = bootstrapSince E lastSt
      in case (NOAA_KP E, NOAA_WIND E, NOAA_MAG E) of
        (Some kRaw, Some windRaw, Some magRaw) \<Rightarrow>
          (let kNewRaw = sliceNew H kRaw (st_k lastSt) bootstrapSinceMs;
               windNewRaw = sliceNew H windRaw (st_wind lastSt) bootstrapSinceMs;
               magNewRaw = sliceNew H magRaw (st_mag lastSt) bootstrapSinceMs;
               lines = encodeLines H kNewRaw windNewRaw magNewRaw;
               proposed = proposedState H lastSt kNewRaw windNewRaw magNewRaw
           in if lines = [] then
                (fetchTrace, STATE E, Inr \<lparr>pushed = 0, committed = False, state = lastSt\<rparr>)
              else
                let influxBody = joinWith [CHR 0x0A] lines @ [CHR 0x0A] in
                case pushToGrafana E influxBody of
                  Some err \<Rightarrow> (fetchTrace @ [Push influxBody], STATE E, Inl err)
                | None \<Rightarrow>
                    if STATE_put_ok E then
                      (fetchTrace @ [Push influxBody, KvPut proposed], Some proposed,
                       Inr \<lparr>pushed = length lines, committed = True, state = proposed\<rparr>)
                    else
                      (fetchTrace @ [Push influxBody, KvPut proposed], STATE E, Inl PutFailed))
      | _ \<Rightarrow> (fetchTrace, STATE E, Inl FetchFailed))"

section \<open>Notions used to state the properties\<close>

definition rawTag :: "row \<Rightarrow> jsval" where
  "rawTag r = getProp r ''time_tag''"

text \<open>The two \<^verbatim>\<open>continue\<close> guards of the slicing loop that look at the timestamp only:
  the row has a truthy \<^verbatim>\<open>time_tag\<close> that parses to a non-zero instant, and that instant
  is after the cutoff when there is one.\<close>

definition inWindow :: "host \<Rightarrow> int option \<Rightarrow> jsval \<Rightarrow> bool" where
  "inWindow H since t =
     (let m = (if truthy t then toMs H t else None) in
      \<not> falsyMs m \<and> \<not> (since \<noteq> None \<and> the m \<le> the since))"


text \<open>The last space-separated component of a line, and reading a decimal numeral back.\<close>

definition lastComponent :: "string \<Rightarrow> string" where
  "lastComponent l = rev (takeWhile (\<lambda>c. c \<noteq> CHR '' '') (rev l))"

definition digitVal :: "char \<Rightarrow> nat" where
  "digitVal c = length (takeWhile (\<lambda>d. d \<noteq> c) ''0123456789'')"

definition readNat :: "string \<Rightarrow> nat" where
  "readNat s = foldl (\<lambda>acc c. 10 * acc + digitVal c) 0 s"

definition readInt :: "string \<Rightarrow> int" where
  "readInt s = (case s of [] \<Rightarrow> 0 | c # cs \<Rightarrow> if c = CHR ''-'' then - int (readNat cs) else int (readNat s))"

text \<open>The batch and the proposed state that \<^verbatim>\<open>run\<close> computes from the three fetched
  feeds, named so that properties of \<^verbatim>\<open>run\<close> can refer to them.\<close>

definition runLines :: "host \<Rightarrow> env \<Rightarrow> feed \<Rightarrow> feed \<Rightarrow> feed \<Rightarrow> string list" where
  "runLines H E kRaw windRaw magRaw =
     (let lastSt = loadLast E; bootstrapSinceMs = bootstrapSince E lastSt in
      encodeLines H (sliceNew H kRaw (st_k lastSt) bootstrapSinceMs)
                    (sliceNew H windRaw (st_wind lastSt) bootstrapSinceMs)
                    (sliceNew H magRaw (st_mag lastSt) bootstrapSinceMs))"

definition runProposed :: "host \<Rightarrow> env \<Rightarrow> feed \<Rightarrow> feed \<Rightarrow> feed \<Rightarrow> syncState" where
  "runProposed H E kRaw windRaw magRaw =
     (let lastSt = loadLast E; bootstrapSinceMs = bootstrapSince E lastSt in
      proposedState H lastSt (sliceNew H kRaw (st_k lastSt) bootstrapSinceMs)
                             (sliceNew H windRaw (st_wind lastSt) bootstrapSinceMs)
                             (sliceNew H magRaw (st_mag lastSt) bootstrapSinceMs))"

definition influxBody :: "string list \<Rightarrow> string" where
  "influxBody lines = joinWith [CHR 0x0A] lines @ [CHR 0x0A]"

text \<open>The sink does not accept a body: the request fails, or the response is not 2xx.\<close>

definition pushFails :: "env \<Rightarrow> string \<Rightarrow> bool" where
  "pushFails E body =
     (case GRAFANA E body of
        NetworkError \<Rightarrow> True
      | Response status txt \<Rightarrow> status < 200 \<or> 299 < status)"



section \<open>Concrete inputs\<close>

text \<open>A host whose conversions are given by finite tables; the instants are those that
  \<^verbatim>\<open>Date.parse\<close> gives for these ISO strings.\<close>

definition exampleHost :: host where
  "exampleHost =
     \<lparr>dateParse = map_of
        [(''1970-01-01T00:00:00Z'', 0),
         (''1970-01-01T00:00:01Z'', 1000),
         (''1970-01-01T00:00:01.000Z'', 1000),
         (''1969-12-31T23:48:20Z'', - 700000),
         (''1970-01-01T00:15:00Z'', 900000),
         (''1970-01-01T00:16:40Z'', 1000000),
         (''2023-11-14T22:13:20Z'', 1700000000000)],
      numberOfString = (\<lambda>s. case map_of [(''3.67'', Fin (367 / 100)), (''400'', Fin 400)] s of
                                None \<Rightarrow> NaN | Some n \<Rightarrow> n),
      numberToString = (\<lambda>n. case map_of
                                [(Fin (367 / 100), ''3.67''), (Fin 400, ''400''), (Fin 1, ''1''),
                                 (NaN, ''NaN''), (PosInf, ''Infinity''), (NegInf, ''-Infinity'')] n of
                                None \<Rightarrow> ''0'' | Some s \<Rightarrow> s)\<rparr>"

definition accepting :: "string \<Rightarrow> pushOutcome" where
  "accepting body = Response 204 []"

definition rejecting :: "string \<Rightarrow> pushOutcome" where
  "rejecting body = Response 500 ''internal error''"

text \<open>A run whose only data is one wind row at 900000 ms while the stored wind watermark
  is 1000000 ms.\<close>

definition lateWindRow :: row where
  "lateWindRow = [(''time_tag'', Str ''1970-01-01T00:15:00Z''), (''proton_speed'', Str ''400'')]"

definition lateWindEnv :: env where
  "lateWindEnv =
     \<lparr>STATE = Some \<lparr>st_k = None, st_wind = Some 1000000, st_mag = None\<rparr>,
      BOOTSTRAP_LOOKBACK_MINUTES = None,
      NOAA_KP = Some (Rows []),
      NOAA_WIND = Some (Rows [lateWindRow]),
      NOAA_MAG = Some (Rows []),
      GRAFANA = accepting,
      STATE_put_ok = True,
      dateNow = 1700000000000\<rparr>"

text \<open>The same run against a sink that answers 500, and a run whose only wind row is
  older than the window.\<close>

definition rejectedEnv :: env where
  "rejectedEnv = lateWindEnv\<lparr>GRAFANA := rejecting\<rparr>"

definition quietEnv :: env where
  "quietEnv = lateWindEnv\<lparr>NOAA_WIND :=
     Some (Rows [[(''time_tag'', Str ''1969-12-31T23:48:20Z''), (''proton_speed'', Str ''400'')]])\<rparr>"

text \<open>Rows of the wind feed used below: two rows with the same raw \<^verbatim>\<open>time_tag\<close> and
  different fields, a row with another spelling of the same instant, a row at the epoch,
  and a row 700 seconds before the epoch.\<close>

definition rowA :: row where
  "rowA = [(''time_tag'', Str ''1970-01-01T00:00:01Z''), (''proton_speed'', Str ''400'')]"

definition rowA' :: row where
  "rowA' = [(''time_tag'', Str ''1970-01-01T00:00:01Z''), (''proton_speed'', Str ''3.67'')]"

definition rowB :: row where
  "rowB = [(''time_tag'', Str ''1970-01-01T00:00:01.000Z''), (''proton_speed'', Str ''400'')]"

definition rowZ :: row where
  "rowZ = [(''time_tag'', Str ''1970-01-01T00:00:00Z''), (''proton_speed'', Str ''400'')]"

definition rowOld :: row where
  "rowOld = [(''time_tag'', Str ''1969-12-31T23:48:20Z''), (''proton_speed'', Str ''400'')]"

section \<open>The slicing loop\<close>

lemma sliceLoop_Cons:
  "sliceLoop H since (r # rows) seen out =
     (if inWindow H since (rawTag r) \<and> rawTag r \<notin> set seen
      then sliceLoop H since rows (rawTag r # seen) (out @ [r])
      else sliceLoop H since rows seen out)"
  by (cases since) (auto simp: Let_def inWindow_def rawTag_def)

declare sliceLoop.simps(2) [simp del]

lemma sliceLoop_set:
  "set (sliceLoop H since rows seen out)
     \<subseteq> set out \<union> {r \<in> set rows. inWindow H since (rawTag r) \<and> rawTag r \<notin> set seen}"
proof (induction rows arbitrary: seen out)
  case Nil
  show ?case by simp
next
  case (Cons r rows)
  show ?case
    using Cons.IH [of "rawTag r # seen" "out @ [r]"] Cons.IH [of seen out]
    by (auto simp: sliceLoop_Cons)
qed

lemma sliceLoop_keeps_out: "set out \<subseteq> set (sliceLoop H since rows seen out)"
proof (induction rows arbitrary: seen out)
  case Nil
  show ?case by simp
next
  case (Cons r rows)
  show ?case
    using Cons.IH [of "out @ [r]" "rawTag r # seen"] Cons.IH [of out seen]
    by (auto simp: sliceLoop_Cons)
qed

lemma sliceLoop_distinct:
  "distinct (map rawTag out) \<Longrightarrow> rawTag ` set out \<subseteq> set seen
   \<Longrightarrow> distinct (map rawTag (sliceLoop H since rows seen out))"
proof (induction rows arbitrary: seen out)
  case Nil
  then show ?case by simp
next
  case (Cons r rows)
  show ?case
  proof (cases "inWindow H since (rawTag r) \<and> rawTag r \<notin> set seen")
    case True
    have "distinct (map rawTag (out @ [r]))"
      using True Cons.prems by auto
    moreover have "rawTag ` set (out @ [r]) \<subseteq> set (rawTag r # seen)"
      using Cons.prems by auto
    ultimately show ?thesis
      using True Cons.IH [of "out @ [r]" "rawTag r # seen"] by (simp add: sliceLoop_Cons)
  next
    case False
    then show ?thesis
      using Cons.IH [OF Cons.prems] by (auto simp: sliceLoop_Cons)
  qed
qed

text \<open>The first input row that carries a given raw \<^verbatim>\<open>time_tag\<close> is the one kept.\<close>

lemma sliceLoop_first:
  "inWindow H since (rawTag r) \<Longrightarrow> rawTag r \<notin> set seen \<Longrightarrow> rawTag r \<notin> rawTag ` set pre
   \<Longrightarrow> r \<in> set (sliceLoop H since (pre @ r # post) seen out)"
proof (induction pre arbitrary: seen out)
  case Nil
  then show ?case
    using sliceLoop_keeps_out [of "out @ [r]" H since post "rawTag r # seen"]
    by (auto simp: sliceLoop_Cons)
next
  case (Cons p pre)
  have a: "rawTag r \<notin> set (rawTag p # seen)" "rawTag r \<notin> rawTag ` set pre"
    using Cons.prems by auto
  show ?case
    using Cons.IH [OF Cons.prems(1) a] Cons.IH [OF Cons.prems(1,2) a(2)]
    by (simp add: sliceLoop_Cons)
qed

section \<open>Properties of \<^verbatim>\<open>sliceNew\<close>\<close>

lemma insort_distinct_map: "distinct (map f (insort_key g x xs)) = distinct (map f (x # xs))"
  by (induction xs) (auto simp: set_insort_key)

lemma sort_key_distinct_map: "distinct (map f (sort_key g xs)) = distinct (map f xs)"
  by (induction xs) (auto simp: insort_distinct_map)

lemma distinct_map_filter_le1:
  "distinct (map f xs) \<Longrightarrow> length (filter (\<lambda>x. f x = a) xs) \<le> 1"
  by (induction xs) (auto simp: filter_empty_conv image_iff)

lemma inWindow_Str:
  "inWindow H since (Str s) =
     (s \<noteq> [] \<and> (\<exists>t. dateParse H s = Some t \<and> t \<noteq> 0 \<and> (\<forall>c. since = Some c \<longrightarrow> c < t)))"
  by (cases "dateParse H s"; cases since) (auto simp: inWindow_def toMs_def falsyMs_def)

lemma inWindow_parses:
  "inWindow H since t \<Longrightarrow> \<exists>m. toMs H t = Some m \<and> m \<noteq> 0 \<and> (\<forall>c. since = Some c \<longrightarrow> c < m)"
  by (cases "toMs H t"; cases since) (auto simp: inWindow_def falsyMs_def split: if_splits)

lemma sliceNew_set:
  "set (sliceNew H (Rows rows) w b) \<subseteq> {r \<in> set rows. inWindow H (cutoff w b) (rawTag r)}"
  using sliceLoop_set [of H "cutoff w b" rows "[]" "[]"] by (auto simp: sliceNew_def)

lemma sliceNew_inWindow:
  "r \<in> set (sliceNew H feed w b) \<Longrightarrow> inWindow H (cutoff w b) (rawTag r)"
  using sliceNew_set [of H _ w b] by (cases feed) (auto simp: sliceNew_def)

lemma sliceNew_distinct: "distinct (map rawTag (sliceNew H feed w b))"
  by (cases feed) (simp_all add: sliceNew_def sort_key_distinct_map sliceLoop_distinct)

lemma sliceNew_first:
  "inWindow H (cutoff w b) (rawTag r) \<Longrightarrow> rawTag r \<notin> rawTag ` set pre
   \<Longrightarrow> r \<in> set (sliceNew H (Rows (pre @ r # post)) w b)"
  using sliceLoop_first [of H "cutoff w b" r "[]" pre post "[]"] by (simp add: sliceNew_def)

lemma sliceNew_tag_present:
  assumes "r \<in> set rows" "inWindow H (cutoff w b) (rawTag r)"
  shows "\<exists>r' \<in> set (sliceNew H (Rows rows) w b). rawTag r' = rawTag r"
proof -
  from assms(1) have "\<exists>x \<in> set rows. rawTag x = rawTag r" by blast
  then obtain pre r0 post where s: "rows = pre @ r0 # post" "rawTag r0 = rawTag r"
      "\<forall>y \<in> set pre. rawTag y \<noteq> rawTag r"
    using split_list_first_prop [of rows "\<lambda>x. rawTag x = rawTag r"] by blast
  have "rawTag r0 \<notin> rawTag ` set pre" using s by auto
  with s assms(2) have "r0 \<in> set (sliceNew H (Rows rows) w b)"
    using sliceNew_first [of H w b r0 pre post] by simp
  with s show ?thesis by blast
qed

lemma sliceNew_tag_once:
  assumes "r \<in> set rows" "inWindow H (cutoff w b) (rawTag r)"
  shows "length (filter (\<lambda>x. rawTag x = rawTag r) (sliceNew H (Rows rows) w b)) = 1"
proof -
  obtain r' where "r' \<in> set (sliceNew H (Rows rows) w b)" "rawTag r' = rawTag r"
    using sliceNew_tag_present [OF assms] by blast
  then have "filter (\<lambda>x. rawTag x = rawTag r) (sliceNew H (Rows rows) w b) \<noteq> []"
    by (auto simp: filter_empty_conv)
  then have "length (filter (\<lambda>x. rawTag x = rawTag r) (sliceNew H (Rows rows) w b)) \<noteq> 0"
    by simp
  moreover have "length (filter (\<lambda>x. rawTag x = rawTag r) (sliceNew H (Rows rows) w b)) \<le> 1"
    by (rule distinct_map_filter_le1) (rule sliceNew_distinct)
  ultimately show ?thesis by linarith
qed

lemma exampleHost_toMs:
  "toMs exampleHost (Str ''1970-01-01T00:00:00Z'') = Some 0"
  "toMs exampleHost (Str ''1970-01-01T00:00:01Z'') = Some 1000"
  "toMs exampleHost (Str ''1970-01-01T00:00:01.000Z'') = Some 1000"
  "toMs exampleHost (Str ''1969-12-31T23:48:20Z'') = Some (- 700000)"
  "toMs exampleHost (Str ''1970-01-01T00:15:00Z'') = Some 900000"
  by (simp_all add: toMs_def exampleHost_def)

lemma example_slice:
  "sliceNew exampleHost (Rows [rowB, rowA, rowA', rowZ, rowOld]) (Some 1000) None = [rowB, rowA]"
  by (simp add: sliceNew_def sliceLoop_Cons inWindow_def cutoff_def OVERLAP_MS_def rawTag_def
      getProp_def rowA_def rowA'_def rowB_def rowZ_def rowOld_def exampleHost_toMs falsyMs_def
      sortKey_def)

text \<open>
  \<^bold>\<open>C6\<close> (ordering). Whatever the order of the input rows, the rows returned by
  \<^verbatim>\<open>sliceNew\<close> all have a parsed timestamp (none is null) and are in non-decreasing order
  of that parsed millisecond timestamp.
\<close>

theorem sliceNew_ordering:
  "sorted (map (\<lambda>r. the (toMs H (rawTag r))) (sliceNew H feed w b))
   \<and> None \<notin> set (map (\<lambda>r. toMs H (rawTag r)) (sliceNew H feed w b))"
proof -
  let ?out = "sliceNew H feed w b"
  have parsed: "\<exists>m. toMs H (rawTag r) = Some m" if "r \<in> set ?out" for r
    using inWindow_parses [OF sliceNew_inWindow [OF that]] by blast
  have "sorted (map (sortKey H) ?out)"
    by (cases feed) (simp_all add: sliceNew_def)
  moreover have "sortKey H r = the (toMs H (rawTag r))" if "r \<in> set ?out" for r
    using parsed [OF that] by (auto simp: sortKey_def rawTag_def)
  then have "map (sortKey H) ?out = map (\<lambda>r. the (toMs H (rawTag r))) ?out"
    by simp
  ultimately have "sorted (map (\<lambda>r. the (toMs H (rawTag r))) ?out)" by simp
  moreover have "None \<notin> set (map (\<lambda>r. toMs H (rawTag r)) ?out)"
    using parsed by force
  ultimately show ?thesis by blast
qed

theorem sliceNew_ordering_witness:
  "sorted (map (\<lambda>r. the (toMs exampleHost (rawTag r))) [rowB, rowA])
   \<and> None \<notin> set (map (\<lambda>r. toMs exampleHost (rawTag r)) [rowB, rowA])"
  by (rule sliceNew_ordering [of exampleHost "Rows [rowB, rowA, rowA', rowZ, rowOld]" "Some 1000" None,
        unfolded example_slice])

lemma example_inWindow:
  "inWindow exampleHost (cutoff (Some 1000) None) (rawTag rowA')"
  "inWindow exampleHost (cutoff (Some 1000) None) (rawTag rowB)"
  by (simp_all add: inWindow_Str cutoff_def OVERLAP_MS_def rawTag_def getProp_def rowA'_def rowB_def
      exampleHost_def)

lemma find_split:
  "find P xs = Some x \<Longrightarrow> \<exists>pre post. xs = pre @ x # post \<and> P x \<and> (\<forall>y \<in> set pre. \<not> P y)"
proof (induction xs)
  case Nil
  then show ?case by simp
next
  case (Cons a xs)
  show ?case
  proof (cases "P a")
    case True
    with Cons.prems have "a # xs = [] @ x # xs \<and> P x \<and> (\<forall>y \<in> set []. \<not> P y)" by simp
    then show ?thesis by blast
  next
    case False
    with Cons obtain pre post where "xs = pre @ x # post" "P x" "\<forall>y \<in> set pre. \<not> P y"
      by auto
    with False have "a # xs = (a # pre) @ x # post \<and> P x \<and> (\<forall>y \<in> set (a # pre). \<not> P y)"
      by simp
    then show ?thesis by blast
  qed
qed

lemma sliceNew_filter_tag:
  assumes "find (\<lambda>x. rawTag x = g) rows = Some r0"
  shows "filter (\<lambda>x. rawTag x = g) (sliceNew H (Rows rows) w b)
           = (if inWindow H (cutoff w b) g then [r0] else [])"
proof (cases "inWindow H (cutoff w b) g")
  case True
  obtain pre post where s: "rows = pre @ r0 # post" "rawTag r0 = g" "\<forall>y \<in> set pre. rawTag y \<noteq> g"
    using find_split [OF assms] by blast
  let ?f = "filter (\<lambda>x. rawTag x = g) (sliceNew H (Rows rows) w b)"
  have "rawTag r0 \<notin> rawTag ` set pre" using s by auto
  then have "r0 \<in> set (sliceNew H (Rows rows) w b)"
    using sliceNew_first [of H w b r0 pre post] True s by simp
  then have mem: "r0 \<in> set ?f" using s by simp
  have "r0 \<in> set rows" using s by simp
  then have "length ?f = 1"
    using sliceNew_tag_once [of r0 rows H w b] True s by simp
  then obtain y where "?f = [y]"
    by (cases ?f) auto
  with mem have "?f = [r0]" by simp
  with True show ?thesis by simp
next
  case False
  then have "\<forall>x \<in> set (sliceNew H (Rows rows) w b). rawTag x \<noteq> g"
    using sliceNew_inWindow [of _ H "Rows rows" w b] by blast
  with False show ?thesis by (simp add: filter_empty_conv)
qed

text \<open>
  \<^bold>\<open>C5\<close> (deduplication by the raw timestamp key). In the output of \<^verbatim>\<open>sliceNew\<close> no two
  rows have the same raw \<^verbatim>\<open>time_tag\<close>; of the input rows that share a raw \<^verbatim>\<open>time_tag\<close>
  passing the window test exactly one is returned, the first in input order, whatever
  the other fields hold; and two rows with different raw \<^verbatim>\<open>time_tag\<close> values that pass the
  window test (in particular two spellings of one instant) are both represented, by
  different output rows.
\<close>

theorem sliceNew_dedup:
  "distinct (map rawTag (sliceNew H (Rows rows) w b))
   \<and> (\<forall>r \<in> set rows. inWindow H (cutoff w b) (rawTag r) \<longrightarrow>
         (\<exists>r0. find (\<lambda>x. rawTag x = rawTag r) rows = Some r0
            \<and> filter (\<lambda>x. rawTag x = rawTag r) (sliceNew H (Rows rows) w b) = [r0]))
   \<and> (\<forall>r1 \<in> set rows. \<forall>r2 \<in> set rows.
         inWindow H (cutoff w b) (rawTag r1) \<and> inWindow H (cutoff w b) (rawTag r2)
         \<and> rawTag r1 \<noteq> rawTag r2 \<longrightarrow>
         (\<exists>x1 \<in> set (sliceNew H (Rows rows) w b). \<exists>x2 \<in> set (sliceNew H (Rows rows) w b).
            x1 \<noteq> x2 \<and> rawTag x1 = rawTag r1 \<and> rawTag x2 = rawTag r2))"
proof (intro conjI ballI impI)
  show "distinct (map rawTag (sliceNew H (Rows rows) w b))"
    by (rule sliceNew_distinct)
next
  fix r assume "r \<in> set rows" "inWindow H (cutoff w b) (rawTag r)"
  moreover from this obtain r0 where "find (\<lambda>x. rawTag x = rawTag r) rows = Some r0"
    by (cases "find (\<lambda>x. rawTag x = rawTag r) rows") (auto simp: find_None_iff)
  ultimately show "\<exists>r0. find (\<lambda>x. rawTag x = rawTag r) rows = Some r0
            \<and> filter (\<lambda>x. rawTag x = rawTag r) (sliceNew H (Rows rows) w b) = [r0]"
    using sliceNew_filter_tag [of "rawTag r" rows r0 H w b] by simp
next
  fix r1 r2
  assume r: "r1 \<in> set rows" "r2 \<in> set rows"
    and h: "inWindow H (cutoff w b) (rawTag r1) \<and> inWindow H (cutoff w b) (rawTag r2)
            \<and> rawTag r1 \<noteq> rawTag r2"
  obtain x1 where x1: "x1 \<in> set (sliceNew H (Rows rows) w b)" "rawTag x1 = rawTag r1"
    using sliceNew_tag_present [OF r(1)] h by blast
  obtain x2 where x2: "x2 \<in> set (sliceNew H (Rows rows) w b)" "rawTag x2 = rawTag r2"
    using sliceNew_tag_present [OF r(2)] h by blast
  from x1 x2 h have "x1 \<noteq> x2" by auto
  with x1 x2 show "\<exists>x1 \<in> set (sliceNew H (Rows rows) w b). \<exists>x2 \<in> set (sliceNew H (Rows rows) w b).
            x1 \<noteq> x2 \<and> rawTag x1 = rawTag r1 \<and> rawTag x2 = rawTag r2"
    by blast
qed

theorem sliceNew_dedup_witness:
  "rowA' \<in> set [rowB, rowA, rowA', rowZ, rowOld]
   \<and> inWindow exampleHost (cutoff (Some 1000) None) (rawTag rowA')
   \<and> rawTag rowA = rawTag rowA' \<and> rowA \<noteq> rowA'
   \<and> filter (\<lambda>x. rawTag x = rawTag rowA') [rowB, rowA] = [rowA]
   \<and> rawTag rowB \<noteq> rawTag rowA'
   \<and> toMs exampleHost (rawTag rowB) = toMs exampleHost (rawTag rowA')
   \<and> (\<exists>x1 \<in> set [rowB, rowA]. \<exists>x2 \<in> set [rowB, rowA].
          x1 \<noteq> x2 \<and> rawTag x1 = rawTag rowB \<and> rawTag x2 = rawTag rowA')"
proof -
  have m: "rowA' \<in> set [rowB, rowA, rowA', rowZ, rowOld]" "rowB \<in> set [rowB, rowA, rowA', rowZ, rowOld]"
    by simp_all
  have d: "rawTag rowA = rawTag rowA'" "rowA \<noteq> rowA'" "rawTag rowB \<noteq> rawTag rowA'"
    "toMs exampleHost (rawTag rowB) = toMs exampleHost (rawTag rowA')"
    by (simp_all add: rawTag_def getProp_def rowA_def rowA'_def rowB_def exampleHost_toMs)
  note t = sliceNew_dedup [of exampleHost "[rowB, rowA, rowA', rowZ, rowOld]" "Some 1000" None,
      unfolded example_slice]
  from t m(1) example_inWindow(1)
  have "\<exists>r0. find (\<lambda>x. rawTag x = rawTag rowA') [rowB, rowA, rowA', rowZ, rowOld] = Some r0
          \<and> filter (\<lambda>x. rawTag x = rawTag rowA') [rowB, rowA] = [r0]" by blast
  moreover have "find (\<lambda>x. rawTag x = rawTag rowA') [rowB, rowA, rowA', rowZ, rowOld] = Some rowA"
    by (simp add: rawTag_def getProp_def rowA_def rowA'_def rowB_def)
  ultimately have "filter (\<lambda>x. rawTag x = rawTag rowA') [rowB, rowA] = [rowA]"
    by simp
  moreover from t m example_inWindow d(3)
  have "\<exists>x1 \<in> set [rowB, rowA]. \<exists>x2 \<in> set [rowB, rowA].
          x1 \<noteq> x2 \<and> rawTag x1 = rawTag rowB \<and> rawTag x2 = rawTag rowA'" by blast
  ultimately show ?thesis using m(1) example_inWindow(1) d by blast
qed

text \<open>
  \<^bold>\<open>C4\<close> as stated fails: with prior watermark 1000 ms the cutoff is -599000 ms, yet a row
  whose timestamp parses to 0 ms is dropped, and so is a second row that repeats a raw
  \<^verbatim>\<open>time_tag\<close> at 1000 ms with other field contents.
\<close>

theorem sliceNew_window_counterexample:
  "rowZ \<in> set [rowA, rowA', rowZ] \<and> rowA' \<in> set [rowA, rowA', rowZ]
   \<and> toMs exampleHost (rawTag rowZ) = Some 0 \<and> 1000 - OVERLAP_MS < (0::int)
   \<and> toMs exampleHost (rawTag rowA') = Some 1000 \<and> 1000 - OVERLAP_MS < (1000::int)
   \<and> sliceNew exampleHost (Rows [rowA, rowA', rowZ]) (Some 1000) None = [rowA]
   \<and> rowZ \<notin> set [rowA] \<and> rowA' \<notin> set [rowA]"
  by (simp add: sliceNew_def sliceLoop_Cons inWindow_def cutoff_def OVERLAP_MS_def rawTag_def
      getProp_def rowA_def rowA'_def rowZ_def exampleHost_toMs falsyMs_def sortKey_def)

text \<open>
  \<^bold>\<open>C4\<close> (window cutoff with overlap), as amended. For a raw \<^verbatim>\<open>time_tag\<close> string that is
  non-empty and parses to a non-zero instant \<open>t\<close>, with \<open>r0\<close> the first input row carrying
  it: with a non-zero prior watermark \<open>w\<close> the output holds exactly \<open>r0\<close> for that
  \<^verbatim>\<open>time_tag\<close> if \<open>w - 600000 < t\<close> and no row for it otherwise; without a prior watermark
  the bootstrap cutoff takes the place of \<open>w - 600000\<close>, and with neither there is no lower
  bound.
\<close>

theorem sliceNew_window:
  assumes "find (\<lambda>x. rawTag x = Str s) rows = Some r0" and "s \<noteq> []"
    and "dateParse H s = Some t" and "t \<noteq> 0"
  shows "(w \<noteq> 0 \<longrightarrow>
            filter (\<lambda>x. rawTag x = Str s) (sliceNew H (Rows rows) (Some w) b)
              = (if w - 600000 < t then [r0] else []))
         \<and> filter (\<lambda>x. rawTag x = Str s) (sliceNew H (Rows rows) None b)
              = (if (case b of None \<Rightarrow> True | Some c \<Rightarrow> c < t) then [r0] else [])"
proof -
  have a: "w \<noteq> 0 \<Longrightarrow> inWindow H (cutoff (Some w) b) (Str s) \<longleftrightarrow> w - 600000 < t"
    using assms by (simp add: inWindow_Str cutoff_def OVERLAP_MS_def)
  have b: "inWindow H (cutoff None b) (Str s) \<longleftrightarrow> (case b of None \<Rightarrow> True | Some c \<Rightarrow> c < t)"
    using assms by (simp add: inWindow_Str cutoff_def split: option.splits)
  show ?thesis
    using sliceNew_filter_tag [OF assms(1), of H "Some w" b]
      sliceNew_filter_tag [OF assms(1), of H None b] a b
    by simp
qed

theorem sliceNew_window_witness:
  "find (\<lambda>x. rawTag x = Str ''1970-01-01T00:00:01Z'') [rowB, rowA, rowA', rowZ, rowOld] = Some rowA
   \<and> dateParse exampleHost ''1970-01-01T00:00:01Z'' = Some 1000
   \<and> filter (\<lambda>x. rawTag x = Str ''1970-01-01T00:00:01Z'') [rowB, rowA] = [rowA]
   \<and> find (\<lambda>x. rawTag x = Str ''1969-12-31T23:48:20Z'') [rowB, rowA, rowA', rowZ, rowOld] = Some rowOld
   \<and> dateParse exampleHost ''1969-12-31T23:48:20Z'' = Some (- 700000)
   \<and> filter (\<lambda>x. rawTag x = Str ''1969-12-31T23:48:20Z'') [rowB, rowA] = []"
proof -
  have h: "find (\<lambda>x. rawTag x = Str ''1970-01-01T00:00:01Z'') [rowB, rowA, rowA', rowZ, rowOld] = Some rowA"
    "''1970-01-01T00:00:01Z'' \<noteq> []"
    "dateParse exampleHost ''1970-01-01T00:00:01Z'' = Some 1000"
    "(1000::int) \<noteq> 0"
    by (simp_all add: rawTag_def getProp_def rowA_def rowB_def exampleHost_def)
  have g: "find (\<lambda>x. rawTag x = Str ''1969-12-31T23:48:20Z'') [rowB, rowA, rowA', rowZ, rowOld] = Some rowOld"
    "''1969-12-31T23:48:20Z'' \<noteq> []"
    "dateParse exampleHost ''1969-12-31T23:48:20Z'' = Some (- 700000)"
    "(- 700000::int) \<noteq> 0"
    by (simp_all add: rawTag_def getProp_def rowA_def rowA'_def rowB_def rowZ_def rowOld_def exampleHost_def)
  from sliceNew_window [OF h, of 1000 None, unfolded example_slice]
  have 1: "filter (\<lambda>x. rawTag x = Str ''1970-01-01T00:00:01Z'') [rowB, rowA] = [rowA]" by simp
  from sliceNew_window [OF g, of 1000 None, unfolded example_slice]
  have 2: "filter (\<lambda>x. rawTag x = Str ''1969-12-31T23:48:20Z'') [rowB, rowA] = []" by simp
  from h g 1 2 show ?thesis by blast
qed

section \<open>Properties of \<^verbatim>\<open>run\<close>\<close>

lemma run_fetch_failed:
  "NOAA_KP E = None \<or> NOAA_WIND E = None \<or> NOAA_MAG E = None
   \<Longrightarrow> run H E = (fetchTrace, STATE E, Inl FetchFailed)"
  by (auto simp: run_def Let_def split: option.splits)

lemma run_fetched:
  assumes "NOAA_KP E = Some kRaw" "NOAA_WIND E = Some windRaw" "NOAA_MAG E = Some magRaw"
  shows "run H E =
     (if runLines H E kRaw windRaw magRaw = [] then
        (fetchTrace, STATE E, Inr \<lparr>pushed = 0, committed = False, state = loadLast E\<rparr>)
      else
        case pushToGrafana E (influxBody (runLines H E kRaw windRaw magRaw)) of
          Some err \<Rightarrow>
            (fetchTrace @ [Push (influxBody (runLines H E kRaw windRaw magRaw))], STATE E, Inl err)
        | None \<Rightarrow>
            if STATE_put_ok E then
              (fetchTrace @ [Push (influxBody (runLines H E kRaw windRaw magRaw)),
                             KvPut (runProposed H E kRaw windRaw magRaw)],
               Some (runProposed H E kRaw windRaw magRaw),
               Inr \<lparr>pushed = length (runLines H E kRaw windRaw magRaw), committed = True,
                    state = runProposed H E kRaw windRaw magRaw\<rparr>)
            else
              (fetchTrace @ [Push (influxBody (runLines H E kRaw windRaw magRaw)),
                             KvPut (runProposed H E kRaw windRaw magRaw)],
               STATE E, Inl PutFailed))"
  using assms
  by (simp add: run_def Let_def runLines_def runProposed_def influxBody_def split: option.splits)

lemma pushToGrafana_fails: "pushToGrafana E body \<noteq> None \<longleftrightarrow> pushFails E body"
  by (auto simp: pushToGrafana_def pushFails_def split: pushOutcome.splits)

lemma fold_max_in: "fold max xs (x::int) \<in> set (x # xs)"
  by (induction xs arbitrary: x) (auto simp: max_def)

lemma fold_max_init: "(x::int) \<le> fold max xs x"
proof (induction xs arbitrary: x)
  case Nil
  show ?case by simp
next
  case (Cons a xs)
  have "x \<le> max a x" by simp
  also have "max a x \<le> fold max xs (max a x)" by (rule Cons.IH)
  finally show ?case by simp
qed

lemma fold_max_ge: "y \<in> set (x # xs) \<Longrightarrow> y \<le> fold max xs (x::int)"
proof (induction xs arbitrary: x)
  case Nil
  then show ?case by simp
next
  case (Cons a xs)
  show ?case
  proof (cases "y \<in> set xs")
    case True
    then show ?thesis using Cons.IH [of "max a x"] by simp
  next
    case False
    with Cons.prems have "y \<le> max a x" by auto
    also have "max a x \<le> fold max xs (max a x)" by (rule fold_max_init)
    finally show ?thesis by simp
  qed
qed

lemma maxOf_Max: "xs \<noteq> [] \<Longrightarrow> maxOf xs = Max (set xs)"
proof -
  assume "xs \<noteq> []"
  then obtain x ys where xs: "xs = x # ys" by (cases xs) auto
  have "fold max ys x \<in> set (x # ys)" by (rule fold_max_in)
  moreover have "\<forall>y \<in> set (x # ys). y \<le> fold max ys x" using fold_max_ge by blast
  ultimately have "Max (set (x # ys)) = fold max ys x"
    by (intro Max_eqI) auto
  with xs show ?thesis by simp
qed

lemma latestTsMs_sliced:
  assumes "\<forall>r \<in> set out. \<exists>m. toMs H (rawTag r) = Some m \<and> m \<noteq> 0"
  shows "latestTsMs H out =
           (if out = [] then None else Some (Max ((\<lambda>r. the (toMs H (rawTag r))) ` set out)))"
proof (cases "out = []")
  case True
  then show ?thesis by (simp add: latestTsMs_def)
next
  case False
  have f: "filter (\<lambda>m. \<not> falsyMs m) (map (\<lambda>r. toMs H (getProp r ''time_tag'')) out)
             = map (\<lambda>r. toMs H (rawTag r)) out"
    using assms by (induction out) (auto simp: falsyMs_def rawTag_def)
  have "map the (map (\<lambda>r. toMs H (rawTag r)) out) \<noteq> []" using False by simp
  then have "maxOf (map the (map (\<lambda>r. toMs H (rawTag r)) out))
               = Max (set (map the (map (\<lambda>r. toMs H (rawTag r)) out)))"
    by (rule maxOf_Max)
  also have "set (map the (map (\<lambda>r. toMs H (rawTag r)) out)) = (\<lambda>r. the (toMs H (rawTag r))) ` set out"
    by auto
  finally show ?thesis using False f by (simp add: latestTsMs_def Let_def)
qed

lemma sliceNew_parsed:
  "r \<in> set (sliceNew H feed w b) \<Longrightarrow>
     \<exists>m. toMs H (rawTag r) = Some m \<and> m \<noteq> 0 \<and> (\<forall>c. cutoff w b = Some c \<longrightarrow> c < m)"
  using inWindow_parses [OF sliceNew_inWindow] by blast

lemma latestTsMs_sliceNew:
  "latestTsMs H (sliceNew H feed w b) =
     (if sliceNew H feed w b = [] then None
      else Some (Max ((\<lambda>r. the (toMs H (rawTag r))) ` set (sliceNew H feed w b))))"
  by (rule latestTsMs_sliced) (use sliceNew_parsed in blast)

lemma proposed_bound:
  assumes "w \<noteq> 0"
  shows "\<exists>w'. orElse (latestTsMs H (sliceNew H feed (Some w) b)) (Some w) = Some w'
            \<and> w - 600000 < w'
            \<and> (sliceNew H feed (Some w) b = [] \<longrightarrow> w' = w)
            \<and> (sliceNew H feed (Some w) b \<noteq> [] \<longrightarrow>
                 w' = Max ((\<lambda>r. the (toMs H (rawTag r))) ` set (sliceNew H feed (Some w) b)))"
proof (cases "sliceNew H feed (Some w) b = []")
  case True
  then show ?thesis by (simp add: latestTsMs_def orElse_def)
next
  case False
  let ?out = "sliceNew H feed (Some w) b"
  let ?S = "(\<lambda>r. the (toMs H (rawTag r))) ` set ?out"
  have c: "cutoff (Some w) b = Some (w - 600000)"
    using assms by (simp add: cutoff_def OVERLAP_MS_def)
  have "finite ?S" "?S \<noteq> {}" using False by auto
  then have "Max ?S \<in> ?S" by (rule Max_in)
  then obtain r where "r \<in> set ?out" "Max ?S = the (toMs H (rawTag r))" by blast
  then have "w - 600000 < Max ?S"
    using sliceNew_parsed [of r H feed "Some w" b] c by auto
  with False show ?thesis by (simp add: latestTsMs_sliceNew orElse_def)
qed

lemmas eval_defs = sliceNew_def sliceLoop_Cons inWindow_def cutoff_def OVERLAP_MS_def rawTag_def
      getProp_def exampleHost_toMs falsyMs_def sortKey_def

lemma exampleHost_show:
  "numberToString exampleHost (Fin 400) = ''400''"
  "numberToString exampleHost (Fin (367 / 100)) = ''3.67''"
  "numberToString exampleHost (Fin 1) = ''1''"
  by (simp_all add: exampleHost_def)

lemma late_lines:
  "runLines exampleHost lateWindEnv (Rows []) (Rows [lateWindRow]) (Rows [])
     = [''solarwind_plasma,source=unknown speed_km_s=400 900000000000'']"
proof -
  have s: "sliceNew exampleHost (Rows [lateWindRow]) (Some 1000000) None = [lateWindRow]"
    by (simp add: eval_defs lateWindRow_def)
  have p: "normalizePoints exampleHost [lateWindRow] MAP_WIND [''source'']
     = [\<lparr>tms = 900000, tags = [(''source'', Str ''unknown'')], numFields = [(''speed_km_s'', Fin 400)]\<rparr>]"
    by (simp add: normalizePoints_def normalizeRow_def MAP_WIND_def eval_defs lateWindRow_def
      isFiniteNumber_def toNumber_def tagValue_def trim_def isSpace_def toLowerCase_def lowerChar_def
      exampleHost_def toMs_def)
  have e: "encodeLines exampleHost [] [lateWindRow] []
     = [''solarwind_plasma,source=unknown speed_km_s=400 900000000000'']"
    by (simp add: encodeLines_def p kpLines_def kpPoints_def pointLines_def
      line_def fieldStr_def tagStr_def escTag_def escMeas_def replaceAll_def backslash_def
      showInt_def digitChar_def exampleHost_show normalizePoints_def [of _ "[]"])
  show ?thesis
    by (simp add: runLines_def Let_def lateWindEnv_def loadLast_def bootstrapSince_def falsyMs_def
        s e sliceNew_def [of _ "Rows []"])
qed

lemma late_proposed:
  "runProposed exampleHost lateWindEnv (Rows []) (Rows [lateWindRow]) (Rows [])
     = \<lparr>st_k = None, st_wind = Some 900000, st_mag = None\<rparr>"
proof -
  have s: "sliceNew exampleHost (Rows [lateWindRow]) (Some 1000000) None = [lateWindRow]"
    by (simp add: eval_defs lateWindRow_def)
  have l: "latestTsMs exampleHost [lateWindRow] = Some 900000"
    by (simp add: latestTsMs_def eval_defs lateWindRow_def)
  show ?thesis
    by (simp add: runProposed_def Let_def lateWindEnv_def loadLast_def bootstrapSince_def falsyMs_def
        s l sliceNew_def [of _ "Rows []"] proposedState_def orElse_def latestTsMs_def [of _ "[]"])
qed

lemma late_feeds:
  "NOAA_KP lateWindEnv = Some (Rows [])" "NOAA_WIND lateWindEnv = Some (Rows [lateWindRow])"
  "NOAA_MAG lateWindEnv = Some (Rows [])"
  "NOAA_KP rejectedEnv = Some (Rows [])" "NOAA_WIND rejectedEnv = Some (Rows [lateWindRow])"
  "NOAA_MAG rejectedEnv = Some (Rows [])"
  by (simp_all add: lateWindEnv_def rejectedEnv_def)

lemma late_env:
  "GRAFANA lateWindEnv = accepting" "STATE_put_ok lateWindEnv"
  "STATE lateWindEnv = Some \<lparr>st_k = None, st_wind = Some 1000000, st_mag = None\<rparr>"
  "GRAFANA rejectedEnv = rejecting"
  "STATE rejectedEnv = Some \<lparr>st_k = None, st_wind = Some 1000000, st_mag = None\<rparr>"
  by (simp_all add: lateWindEnv_def rejectedEnv_def)

lemma late_run:
  "run exampleHost lateWindEnv =
     ([KvGet, Fetch ''NOAA_KP_URL'', Fetch ''NOAA_WIND_URL'', Fetch ''NOAA_MAG_URL'',
       Push (''solarwind_plasma,source=unknown speed_km_s=400 900000000000'' @ [CHR 0x0A]),
       KvPut \<lparr>st_k = None, st_wind = Some 900000, st_mag = None\<rparr>],
      Some \<lparr>st_k = None, st_wind = Some 900000, st_mag = None\<rparr>,
      Inr \<lparr>pushed = 1, committed = True, state = \<lparr>st_k = None, st_wind = Some 900000, st_mag = None\<rparr>\<rparr>)"
  by (simp add: run_fetched [OF late_feeds(1,2,3)] late_lines late_proposed influxBody_def
      pushToGrafana_def fetchTrace_def late_env accepting_def)

lemma rejected_lines:
  "runLines exampleHost rejectedEnv (Rows []) (Rows [lateWindRow]) (Rows [])
     = runLines exampleHost lateWindEnv (Rows []) (Rows [lateWindRow]) (Rows [])"
  by (simp add: runLines_def rejectedEnv_def loadLast_def bootstrapSince_def Let_def)

lemma rejected_run:
  "run exampleHost rejectedEnv =
     ([KvGet, Fetch ''NOAA_KP_URL'', Fetch ''NOAA_WIND_URL'', Fetch ''NOAA_MAG_URL'',
       Push (''solarwind_plasma,source=unknown speed_km_s=400 900000000000'' @ [CHR 0x0A])],
      Some \<lparr>st_k = None, st_wind = Some 1000000, st_mag = None\<rparr>,
      Inl (PushRejected 500 ''internal error''))"
  by (simp add: run_fetched [OF late_feeds(4,5,6)] rejected_lines late_lines influxBody_def
      pushToGrafana_def fetchTrace_def late_env rejecting_def)

lemma quiet_feeds:
  "NOAA_KP quietEnv = Some (Rows [])"
  "NOAA_WIND quietEnv = Some (Rows [[(''time_tag'', Str ''1969-12-31T23:48:20Z''), (''proton_speed'', Str ''400'')]])"
  "NOAA_MAG quietEnv = Some (Rows [])"
  by (simp_all add: lateWindEnv_def quietEnv_def)

lemma quiet_lines:
  "runLines exampleHost quietEnv (Rows [])
     (Rows [[(''time_tag'', Str ''1969-12-31T23:48:20Z''), (''proton_speed'', Str ''400'')]]) (Rows []) = []"
proof -
  have s: "sliceNew exampleHost
      (Rows [[(''time_tag'', Str ''1969-12-31T23:48:20Z''), (''proton_speed'', Str ''400'')]])
      (Some 1000000) None = []"
    by (simp add: eval_defs)
  show ?thesis
    by (simp add: runLines_def Let_def quietEnv_def lateWindEnv_def loadLast_def bootstrapSince_def
        falsyMs_def s sliceNew_def [of _ "Rows []"] encodeLines_def kpLines_def kpPoints_def
        pointLines_def normalizePoints_def)
qed

text \<open>
  \<^bold>\<open>C3\<close> (commit gating). When the three fetches succeed and the run encodes zero lines,
  the only effects are the state read and the three fetches: no push request is made and
  no state is written; the store is unchanged and the run returns the watermarks it read
  with \<open>pushed = 0\<close> and \<open>committed = False\<close>.
\<close>

theorem commit_gate:
  assumes "NOAA_KP E = Some kRaw" and "NOAA_WIND E = Some windRaw" and "NOAA_MAG E = Some magRaw"
    and "runLines H E kRaw windRaw magRaw = []"
  shows "run H E =
           ([KvGet, Fetch ''NOAA_KP_URL'', Fetch ''NOAA_WIND_URL'', Fetch ''NOAA_MAG_URL''],
            STATE E,
            Inr \<lparr>pushed = 0, committed = False, state = loadLast E\<rparr>)"
  using assms by (simp add: run_fetched fetchTrace_def)

theorem commit_gate_witness:
  "runLines exampleHost quietEnv (Rows [])
     (Rows [[(''time_tag'', Str ''1969-12-31T23:48:20Z''), (''proton_speed'', Str ''400'')]]) (Rows []) = []
   \<and> run exampleHost quietEnv =
           ([KvGet, Fetch ''NOAA_KP_URL'', Fetch ''NOAA_WIND_URL'', Fetch ''NOAA_MAG_URL''],
            Some \<lparr>st_k = None, st_wind = Some 1000000, st_mag = None\<rparr>,
            Inr \<lparr>pushed = 0, committed = False,
                 state = \<lparr>st_k = None, st_wind = Some 1000000, st_mag = None\<rparr>\<rparr>)"
proof -
  have "STATE quietEnv = Some \<lparr>st_k = None, st_wind = Some 1000000, st_mag = None\<rparr>"
    by (simp add: quietEnv_def lateWindEnv_def)
  then show ?thesis
    using commit_gate [OF quiet_feeds quiet_lines] quiet_lines by (simp add: loadLast_def)
qed

text \<open>
  \<^bold>\<open>C1\<close> (commit after success). If the body that was pushed is not accepted (network
  error or a status outside 200..299), the run ends with the error right after the push:
  no put is executed and the store holds what it held at the start. A put, when there is
  one, is the last effect, directly after a push that the sink accepted; and the store
  changes only through such a put.
\<close>

theorem commit_after_success:
  "(\<forall>body. Push body \<in> set (fst (run H E)) \<and> pushFails E body \<longrightarrow>
      (\<exists>err. run H E =
         ([KvGet, Fetch ''NOAA_KP_URL'', Fetch ''NOAA_WIND_URL'', Fetch ''NOAA_MAG_URL'', Push body],
          STATE E, Inl err)))
   \<and> (\<forall>s. KvPut s \<in> set (fst (run H E)) \<longrightarrow>
      (\<exists>body. fst (run H E) =
         [KvGet, Fetch ''NOAA_KP_URL'', Fetch ''NOAA_WIND_URL'', Fetch ''NOAA_MAG_URL'', Push body, KvPut s]
         \<and> \<not> pushFails E body))
   \<and> (fst (snd (run H E)) \<noteq> STATE E \<longrightarrow>
      (\<exists>s. KvPut s \<in> set (fst (run H E)) \<and> fst (snd (run H E)) = Some s))"
proof (cases "NOAA_KP E = None \<or> NOAA_WIND E = None \<or> NOAA_MAG E = None")
  case True
  then show ?thesis by (auto simp: run_fetch_failed fetchTrace_def)
next
  case False
  then obtain kRaw windRaw magRaw where
    f: "NOAA_KP E = Some kRaw" "NOAA_WIND E = Some windRaw" "NOAA_MAG E = Some magRaw"
    by auto
  let ?body = "influxBody (runLines H E kRaw windRaw magRaw)"
  show ?thesis
  proof (cases "runLines H E kRaw windRaw magRaw = []")
    case True
    then show ?thesis by (simp add: run_fetched [OF f] fetchTrace_def)
  next
    case nonempty: False
    show ?thesis
    proof (cases "pushToGrafana E ?body")
      case None
      then have "\<not> pushFails E ?body" using pushToGrafana_fails [of E ?body] by simp
      with None nonempty show ?thesis by (auto simp: run_fetched [OF f] fetchTrace_def)
    next
      case (Some err)
      then have "pushFails E ?body" using pushToGrafana_fails [of E ?body] by simp
      with Some nonempty show ?thesis by (auto simp: run_fetched [OF f] fetchTrace_def)
    qed
  qed
qed

theorem commit_after_success_witness:
  "Push (''solarwind_plasma,source=unknown speed_km_s=400 900000000000'' @ [CHR 0x0A])
     \<in> set (fst (run exampleHost rejectedEnv))
   \<and> pushFails rejectedEnv (''solarwind_plasma,source=unknown speed_km_s=400 900000000000'' @ [CHR 0x0A])
   \<and> (\<exists>err. run exampleHost rejectedEnv =
         ([KvGet, Fetch ''NOAA_KP_URL'', Fetch ''NOAA_WIND_URL'', Fetch ''NOAA_MAG_URL'',
           Push (''solarwind_plasma,source=unknown speed_km_s=400 900000000000'' @ [CHR 0x0A])],
          STATE rejectedEnv, Inl err))"
proof -
  have a: "Push (''solarwind_plasma,source=unknown speed_km_s=400 900000000000'' @ [CHR 0x0A])
     \<in> set (fst (run exampleHost rejectedEnv))"
    by (simp add: rejected_run)
  have b: "pushFails rejectedEnv (''solarwind_plasma,source=unknown speed_km_s=400 900000000000'' @ [CHR 0x0A])"
    by (simp add: pushFails_def late_env rejecting_def)
  from commit_after_success [of exampleHost rejectedEnv] a b show ?thesis by blast
qed

lemma run_committed:
  assumes "run H E = (tr, kv, Inr res)" and "committed res"
  shows "\<exists>kRaw windRaw magRaw. NOAA_KP E = Some kRaw \<and> NOAA_WIND E = Some windRaw
           \<and> NOAA_MAG E = Some magRaw \<and> state res = runProposed H E kRaw windRaw magRaw
           \<and> kv = Some (state res)"
proof (cases "NOAA_KP E = None \<or> NOAA_WIND E = None \<or> NOAA_MAG E = None")
  case True
  with assms show ?thesis by (simp add: run_fetch_failed)
next
  case False
  then obtain kRaw windRaw magRaw where
    f: "NOAA_KP E = Some kRaw" "NOAA_WIND E = Some windRaw" "NOAA_MAG E = Some magRaw"
    by auto
  from assms have "state res = runProposed H E kRaw windRaw magRaw \<and> kv = Some (state res)"
    by (auto simp: run_fetched [OF f] split: if_splits option.splits)
  with f show ?thesis by blast
qed

lemma runProposed_sel:
  "st_k (runProposed H E kRaw windRaw magRaw)
     = orElse (latestTsMs H (sliceNew H kRaw (st_k (loadLast E)) (bootstrapSince E (loadLast E))))
              (st_k (loadLast E))"
  "st_wind (runProposed H E kRaw windRaw magRaw)
     = orElse (latestTsMs H (sliceNew H windRaw (st_wind (loadLast E)) (bootstrapSince E (loadLast E))))
              (st_wind (loadLast E))"
  "st_mag (runProposed H E kRaw windRaw magRaw)
     = orElse (latestTsMs H (sliceNew H magRaw (st_mag (loadLast E)) (bootstrapSince E (loadLast E))))
              (st_mag (loadLast E))"
  by (simp_all add: runProposed_def proposedState_def Let_def)

text \<open>
  \<^bold>\<open>C2\<close> (watermarks across committed runs), as amended. When a run commits, the store
  holds the returned state, and for each of \<open>kp\<close>, \<open>wind\<close> and \<open>mag\<close> with a non-zero
  watermark \<open>w\<close> read at the start, the written watermark \<open>w'\<close> is more than \<open>w - 600000\<close>;
  it is \<open>w\<close> again when the series has no sliced rows, and otherwise the greatest parsed
  timestamp among the sliced rows (so it is below \<open>w\<close> exactly when all sliced rows lie
  inside the overlap window).
\<close>

theorem watermark_regress_bounded:
  assumes "run H E = (tr, kv, Inr res)" and "committed res"
  shows "kv = Some (state res)
     \<and> (\<forall>(sel, src) \<in> set [(st_k, NOAA_KP), (st_wind, NOAA_WIND), (st_mag, NOAA_MAG)].
          \<forall>w. sel (loadLast E) = Some w \<and> w \<noteq> 0 \<longrightarrow>
            (\<exists>w' feed. src E = Some feed \<and> sel (state res) = Some w' \<and> w - 600000 < w'
               \<and> (sliceNew H feed (Some w) (bootstrapSince E (loadLast E)) = [] \<longrightarrow> w' = w)
               \<and> (sliceNew H feed (Some w) (bootstrapSince E (loadLast E)) \<noteq> [] \<longrightarrow>
                    w' = Max ((\<lambda>r. the (toMs H (rawTag r)))
                               ` set (sliceNew H feed (Some w) (bootstrapSince E (loadLast E)))))))"
proof -
  obtain kRaw windRaw magRaw where
    f: "NOAA_KP E = Some kRaw" "NOAA_WIND E = Some windRaw" "NOAA_MAG E = Some magRaw"
    and p: "state res = runProposed H E kRaw windRaw magRaw" and kv: "kv = Some (state res)"
    using run_committed [OF assms] by blast
  let ?b = "bootstrapSince E (loadLast E)"
  have one: "\<exists>w' fd. Some feed = Some fd \<and> orElse (latestTsMs H (sliceNew H feed (Some w) ?b)) (Some w) = Some w'
               \<and> w - 600000 < w'
               \<and> (sliceNew H fd (Some w) ?b = [] \<longrightarrow> w' = w)
               \<and> (sliceNew H fd (Some w) ?b \<noteq> [] \<longrightarrow>
                    w' = Max ((\<lambda>r. the (toMs H (rawTag r))) ` set (sliceNew H fd (Some w) ?b)))"
    if "w \<noteq> 0" for w feed
    using proposed_bound [OF that, of H feed ?b] by blast
  show ?thesis
    using kv one [of _ kRaw] one [of _ windRaw] one [of _ magRaw]
    by (simp add: p f runProposed_sel)
qed

theorem watermark_regress_bounded_witness:
  "run exampleHost lateWindEnv =
     ([KvGet, Fetch ''NOAA_KP_URL'', Fetch ''NOAA_WIND_URL'', Fetch ''NOAA_MAG_URL'',
       Push (''solarwind_plasma,source=unknown speed_km_s=400 900000000000'' @ [CHR 0x0A]),
       KvPut \<lparr>st_k = None, st_wind = Some 900000, st_mag = None\<rparr>],
      Some \<lparr>st_k = None, st_wind = Some 900000, st_mag = None\<rparr>,
      Inr \<lparr>pushed = 1, committed = True, state = \<lparr>st_k = None, st_wind = Some 900000, st_mag = None\<rparr>\<rparr>)
   \<and> st_wind (loadLast lateWindEnv) = Some 1000000
   \<and> (\<exists>w'. st_wind \<lparr>st_k = None, st_wind = Some 900000, st_mag = None\<rparr> = Some w'
          \<and> 1000000 - 600000 < w')"
proof -
  have c: "committed \<lparr>pushed = 1, committed = True,
             state = \<lparr>st_k = None, st_wind = Some 900000, st_mag = None\<rparr>\<rparr>" by simp
  have l: "st_wind (loadLast lateWindEnv) = Some 1000000"
    by (simp add: loadLast_def late_env)
  from watermark_regress_bounded [OF late_run c] l
  have "\<exists>w'. st_wind \<lparr>st_k = None, st_wind = Some 900000, st_mag = None\<rparr> = Some w'
          \<and> 1000000 - 600000 < w'"
    by auto
  with late_run l show ?thesis by blast
qed

text \<open>
  \<^bold>\<open>C2\<close> as stated fails: the stored wind watermark is 1000000 ms, the only sliced row is
  at 900000 ms (inside the overlap window), the run commits, and the written wind
  watermark is 900000 ms.
\<close>

theorem watermark_monotone_counterexample:
  "st_wind (loadLast lateWindEnv) = Some 1000000
   \<and> committed (projr (snd (snd (run exampleHost lateWindEnv))))
   \<and> st_wind (state (projr (snd (snd (run exampleHost lateWindEnv))))) = Some 900000
   \<and> fst (snd (run exampleHost lateWindEnv)) = Some \<lparr>st_k = None, st_wind = Some 900000, st_mag = None\<rparr>
   \<and> \<not> (1000000 \<le> (900000::int))"
  by (simp add: late_run loadLast_def late_env)

text \<open>
  \<^bold>\<open>C10\<close> (a zero watermark is an absent one). \<^verbatim>\<open>sliceNew\<close> with the watermark 0 returns
  what it returns with no watermark: the cutoff is the bootstrap cutoff (or none), not
  \<open>0 - 600000\<close>. The cold-start check computes the same bootstrap cutoff whether the three
  watermarks are absent or zero.
\<close>

theorem zero_watermark_absent:
  assumes "zk = None \<or> zk = Some 0" and "zw = None \<or> zw = Some 0" and "zm = None \<or> zm = Some 0"
  shows "sliceNew H feed (Some 0) b = sliceNew H feed None b
     \<and> cutoff (Some 0) b = b
     \<and> bootstrapSince E \<lparr>st_k = zk, st_wind = zw, st_mag = zm\<rparr>
         = bootstrapSince E \<lparr>st_k = None, st_wind = None, st_mag = None\<rparr>"
proof -
  have c: "cutoff (Some 0) b = b" "cutoff None b = b"
    by (simp_all add: cutoff_def)
  have "sliceNew H feed (Some 0) b = sliceNew H feed None b"
    by (cases feed) (simp_all add: sliceNew_def c)
  moreover have "bootstrapSince E \<lparr>st_k = zk, st_wind = zw, st_mag = zm\<rparr>
         = bootstrapSince E \<lparr>st_k = None, st_wind = None, st_mag = None\<rparr>"
    using assms by (auto simp: bootstrapSince_def falsyMs_def)
  ultimately show ?thesis using c by simp
qed

theorem zero_watermark_absent_witness:
  "sliceNew exampleHost (Rows [rowA, rowOld]) (Some 0) (Some (- 650000)) = [rowA]
   \<and> cutoff (Some 0) (Some (- 650000)) = Some (- 650000)
   \<and> bootstrapSince lateWindEnv \<lparr>st_k = Some 0, st_wind = None, st_mag = Some 0\<rparr>
        = Some (1700000000000 - 180 * 60 * 1000)"
proof -
  have a: "sliceNew exampleHost (Rows [rowA, rowOld]) None (Some (- 650000)) = [rowA]"
    by (simp add: eval_defs rowA_def rowOld_def)
  have b: "bootstrapSince lateWindEnv \<lparr>st_k = None, st_wind = None, st_mag = None\<rparr>
        = Some (1700000000000 - 180 * 60 * 1000)"
    by (simp add: bootstrapSince_def lateWindEnv_def falsyMs_def)
  have h: "Some (0::int) = None \<or> Some (0::int) = Some 0" "(None::int option) = None \<or> (None::int option) = Some 0"
    by simp_all
  from zero_watermark_absent [OF h(1) h(2) h(1), of exampleHost "Rows [rowA, rowOld]" "Some (- 650000)" lateWindEnv] a b
  show ?thesis by simp
qed


section \<open>Properties of the line encoder\<close>

declare showNat.simps [simp del]

lemma digit_cases: "d < 10 \<Longrightarrow> d \<in> {0, 1, 2, 3, 4, 5, 6, 7, 8, 9::nat}"
  by auto

lemma digitVal_digitChar: "d < 10 \<Longrightarrow> digitVal (digitChar d) = d"
  using digit_cases [of d] by (auto simp: digitVal_def digitChar_def)

lemma digitChar_plain: "d < 10 \<Longrightarrow> digitChar d \<noteq> CHR '' '' \<and> digitChar d \<noteq> CHR ''-''"
  using digit_cases [of d] by (auto simp: digitChar_def)

lemma showNat_plain: "c \<in> set (showNat n) \<Longrightarrow> c \<noteq> CHR '' '' \<and> c \<noteq> CHR ''-''"
proof (induction n rule: showNat.induct)
  case (1 n)
  show ?case
  proof (cases "n < 10")
    case True
    with "1.prems" show ?thesis
      using digitChar_plain [of n] by (simp add: showNat.simps [of n])
  next
    case False
    have "n mod 10 < 10" by simp
    with False "1.prems" "1.IH" show ?thesis
      using digitChar_plain [of "n mod 10"] by (auto simp: showNat.simps [of n])
  qed
qed

lemma showNat_nonempty: "showNat n \<noteq> []"
  by (simp add: showNat.simps [of n])

lemma readNat_snoc: "readNat (s @ [c]) = 10 * readNat s + digitVal c"
  by (simp add: readNat_def)

lemma readNat_showNat: "readNat (showNat n) = n"
proof (induction n rule: showNat.induct)
  case (1 n)
  show ?case
  proof (cases "n < 10")
    case True
    then show ?thesis
      by (simp add: showNat.simps [of n] readNat_def digitVal_digitChar)
  next
    case False
    have "n mod 10 < 10" by simp
    with False "1.IH" show ?thesis
      by (simp add: showNat.simps [of n] readNat_snoc digitVal_digitChar)
  qed
qed

lemma readInt_showInt: "readInt (showInt i) = i"
proof (cases "i < 0")
  case True
  then show ?thesis by (simp add: readInt_def showInt_def readNat_showNat)
next
  case False
  obtain c cs where s: "showNat (nat i) = c # cs"
    using showNat_nonempty [of "nat i"] by (cases "showNat (nat i)") auto
  then have "c \<noteq> CHR ''-''" using showNat_plain [of c "nat i"] by simp
  with False s show ?thesis
    using readNat_showNat [of "nat i"] by (simp add: readInt_def showInt_def)
qed

lemma showInt_no_space: "CHR '' '' \<notin> set (showInt i)"
  using showNat_plain by (auto simp: showInt_def)

lemma lastComponent_append: "CHR '' '' \<notin> set d \<Longrightarrow> lastComponent (pre @ '' '' @ d) = d"
proof -
  assume a: "CHR '' '' \<notin> set d"
  have "takeWhile (\<lambda>c. c \<noteq> CHR '' '') (rev d @ CHR '' '' # rev pre)
          = takeWhile (\<lambda>c. c \<noteq> CHR '' '') (rev d)"
    by (simp add: takeWhile_tail)
  also have "\<dots> = rev d"
    using a by (auto simp: takeWhile_eq_all_conv)
  finally have "takeWhile (\<lambda>c. c \<noteq> CHR '' '') (rev d @ CHR '' '' # rev pre) = rev d" .
  then show ?thesis by (simp add: lastComponent_def)
qed

text \<open>
  \<^bold>\<open>C7\<close> (exact nanosecond conversion). The last space-separated component of every
  encoded line is the decimal numeral of the integer \<open>tms * 1000000\<close>, and reading it back
  gives exactly that integer; the arithmetic is on unbounded integers, as \<^verbatim>\<open>BigInt\<close> is.
\<close>

theorem line_timestamp_ns:
  assumes "line H measurement tgs fs t = Some l"
  shows "lastComponent l = showInt (t * 1000000) \<and> readInt (lastComponent l) = t * 1000000"
proof -
  from assms obtain pre where "l = pre @ '' '' @ showInt (t * 1000000)"
    by (auto simp: line_def Let_def split: if_splits)
  then have "lastComponent l = showInt (t * 1000000)"
    using lastComponent_append [OF showInt_no_space] by simp
  then show ?thesis by (simp add: readInt_showInt)
qed

lemma example_kp_line:
  "line exampleHost ''spaceweather_kp'' [(''source'', Str ''noaa'')] [(''kp'', Fin (367 / 100))] 1700000000000
     = Some ''spaceweather_kp,source=noaa kp=3.67 1700000000000000000''"
  by (simp add: line_def fieldStr_def tagStr_def escTag_def escMeas_def replaceAll_def backslash_def
      showInt_def digitChar_def exampleHost_show showNat.simps)

theorem line_timestamp_ns_witness:
  "line exampleHost ''spaceweather_kp'' [(''source'', Str ''noaa'')] [(''kp'', Fin (367 / 100))] 1700000000000
     = Some ''spaceweather_kp,source=noaa kp=3.67 1700000000000000000''
   \<and> lastComponent ''spaceweather_kp,source=noaa kp=3.67 1700000000000000000''
        = showInt (1700000000000 * 1000000)
   \<and> readInt (lastComponent ''spaceweather_kp,source=noaa kp=3.67 1700000000000000000'')
        = 1700000000000 * 1000000
   \<and> showInt (1700000000000 * 1000000) = ''1700000000000000000''"
proof -
  have "showInt (1700000000000 * 1000000) = ''1700000000000000000''"
    by (simp add: showInt_def digitChar_def showNat.simps)
  with line_timestamp_ns [OF example_kp_line] example_kp_line show ?thesis by blast
qed












section \<open>Dropping invalid records\<close>







end
